theory Spec2Isabelle
  imports Main "HOL-Library.Char_ord" "HOL-Library.List_Lexorder"
begin

section \<open>The node binding state (package pcl, \<open>type node struct\<close>)\<close>

text \<open>
  A \<open>Node\<close> interface value refers to a node object of the program; it is modelled by the
  address of that object. The struct \<open>node\<close> holds two flags and the dependency slice.
  A nil slice and an empty slice are both the empty list.
\<close>

type_synonym Node = nat

record node =
  binding :: bool
  bound :: bool
  deps :: "Node list"

text \<open>The zero value of the struct: what a freshly created node holds.\<close>

definition zero_node :: node where
  "zero_node = \<lparr>binding = False, bound = False, deps = []\<rparr>"

definition markBinding :: "node \<Rightarrow> node" where
  "markBinding r = r\<lparr>binding := True\<rparr>"

definition markBound :: "node \<Rightarrow> node" where
  "markBound r = r\<lparr>bound := True\<rparr>"

definition isBinding :: "node \<Rightarrow> bool" where
  "isBinding r \<longleftrightarrow> binding r \<and> \<not> bound r"

definition isBound :: "node \<Rightarrow> bool" where
  "isBound r \<longleftrightarrow> bound r"

definition getDependencies :: "node \<Rightarrow> Node list" where
  "getDependencies r = deps r"

definition setDependencies :: "Node list \<Rightarrow> node \<Rightarrow> node" where
  "setDependencies nodes r = r\<lparr>deps := nodes\<rparr>"

text \<open>
  A sequence of calls of the two transition methods on one node, run from left to right.
\<close>

datatype call = MarkBinding | MarkBound

fun apply_call :: "node \<Rightarrow> call \<Rightarrow> node" where
  "apply_call r MarkBinding = markBinding r"
| "apply_call r MarkBound = markBound r"

definition run_calls :: "call list \<Rightarrow> node \<Rightarrow> node" where
  "run_calls cs r = foldl apply_call r cs"

text \<open>
  The state machine in the words of the specification: three states, \<open>markBinding\<close> only
  from \<open>Unbound\<close>, \<open>markBound\<close> only from \<open>Binding\<close>, every other transition rejected
  (\<open>None\<close>). It is used to compare the code with, never to define it.
\<close>

datatype binding_state = Unbound | Binding | Bound

definition state_of :: "node \<Rightarrow> binding_state" where
  "state_of r = (if bound r then Bound else if binding r then Binding else Unbound)"

fun spec_guarded_transition :: "binding_state \<Rightarrow> call \<Rightarrow> binding_state option" where
  "spec_guarded_transition Unbound MarkBinding = Some Binding"
| "spec_guarded_transition Binding MarkBound = Some Bound"
| "spec_guarded_transition _ _ = None"


section \<open>Errors, package references and the program\<close>

text \<open>
  A Go \<open>error\<close> is either one that an external collaborator produced, known by its
  message, or one built by \<open>fmt.Errorf\<close> with the verb \<open>%w\<close>: it has a message of its
  own and wraps its cause. \<open>Error\<close> is the method that returns the message.
\<close>

datatype error = ExternalError string | WrapError string error

fun Error :: "error \<Rightarrow> string" where
  "Error (ExternalError msg) = msg"
| "Error (WrapError msg err) = msg"

text \<open>
  \<open>fmt.Errorf(prefix + "%w", err)\<close>: the message is the prefix followed by the message of
  the cause, and the cause is kept.
\<close>

definition Errorf_w :: "string \<Rightarrow> error \<Rightarrow> error" where
  "Errorf_w prefix err = WrapError (prefix @ Error err) err"

text \<open>A call either returns a value or panics with an error.\<close>

datatype 'a outcome = Returns 'a | Panics error

text \<open>
  Modelled from the spec: the interface \<open>schema.PackageReference\<close> and its implementation
  \<open>schema.PartialPackage\<close> are declared outside the files at hand. The specification
  describes a reference as one of two variants, full or partial, each with a name and a
  full-definition path, the partial one with a \<open>Snapshot()\<close> operation besides. The queries
  use nothing else of a reference, so a reference carries its name and the outcome of each
  of these calls: \<open>Inl\<close> the error when the call's error is not nil, \<open>Inr\<close> the package
  pointer otherwise. A pointer \<open>*schema.Package\<close> is \<open>None\<close> when nil; the package type
  \<open>'p\<close> is left open. \<open>is_PartialPackage\<close> is the type assertion
  \<open>ref.(*schema.PartialPackage)\<close>.
\<close>

datatype 'p PackageReference =
    is_PackageDefRef: PackageDefRef (Name: string) (Definition: "error + 'p option")
  | is_PartialPackage: PartialPackage (Name: string) (Definition: "error + 'p option")
      (Snapshot: "error + 'p option")

text \<open>
  Of the struct behind \<open>p.binder\<close>, declared outside the files at hand, the queries read
  the one field \<open>referencedPackages\<close>, a Go map from package name to reference.
  A \<open>*syntax.File\<close> is modelled by its address.
\<close>

type_synonym File = nat

record 'p binder_struct =
  referencedPackages :: "string \<rightharpoonup> 'p PackageReference"

record 'p Program =
  Nodes :: "Node list"
  files :: "File list"
  binder_field :: "'p binder_struct"


section \<open>The package queries of a program\<close>

text \<open>
  \<open>for k := range m\<close> yields every key of the map once, in an order that Go leaves open
  and that may differ from one loop to the next. The queries take that order as their
  first argument \<open>ks\<close>; \<open>range_order m ks\<close> says that \<open>ks\<close> is such an order for \<open>m\<close>.
  The methods have a pointer receiver, so each query also returns the program as it is
  after the call.
\<close>

definition range_order :: "('k \<rightharpoonup> 'v) \<Rightarrow> 'k list \<Rightarrow> bool" where
  "range_order m ks \<longleftrightarrow> distinct ks \<and> set ks = dom m"

text \<open>The loop \<open>keys = append(keys, k)\<close> over the keys that \<open>range\<close> yields.\<close>

fun append_keys :: "string list \<Rightarrow> string list \<Rightarrow> string list" where
  "append_keys keys [] = keys"
| "append_keys keys (k # ks) = append_keys (keys @ [k]) ks"

text \<open>
  The loop \<open>values = append(values, p.binder.referencedPackages[k])\<close> over the sorted
  keys. Every key comes from the map itself, so the lookup finds it.
\<close>

fun append_values ::
  "(string \<rightharpoonup> 'p PackageReference) \<Rightarrow> 'p PackageReference list \<Rightarrow> string list
   \<Rightarrow> 'p PackageReference list" where
  "append_values m vals [] = vals"
| "append_values m vals (k # keys) = append_values m (vals @ [the (m k)]) keys"

text \<open>\<open>sort.Strings\<close> orders strings bytewise, as the order on \<open>string\<close> does.\<close>

definition PackageReferences ::
  "string list \<Rightarrow> 'p Program \<Rightarrow> 'p PackageReference list \<times> 'p Program" where
  "PackageReferences ks p =
     (let keys = sort (append_keys [] ks);
          vals = append_values (referencedPackages (binder_field p)) [] keys
      in (vals, p))"

text \<open>
  The loop of \<open>Packages\<close>: \<open>i\<close> is the index of the reference at hand, \<open>defs\<close> the slice
  made with \<open>len(refs)\<close> nil entries, written at \<open>i\<close>.
\<close>

fun Packages_loop ::
  "nat \<Rightarrow> 'p PackageReference list \<Rightarrow> 'p option list \<Rightarrow> 'p option list outcome" where
  "Packages_loop i [] defs = Returns defs"
| "Packages_loop i (ref # refs) defs =
     (case Definition ref of
        Inl err \<Rightarrow> Panics (Errorf_w ''loading package definition: '' err)
      | Inr def \<Rightarrow> Packages_loop (Suc i) refs (defs[i := def]))"

definition Packages ::
  "string list \<Rightarrow> 'p Program \<Rightarrow> 'p option list outcome \<times> 'p Program" where
  "Packages ks p =
     (case PackageReferences ks p of
        (refs, p') \<Rightarrow> (Packages_loop 0 refs (replicate (length refs) None), p'))"

text \<open>The branch of \<open>PackageSnapshots\<close> on the dynamic type of the reference.\<close>

definition snapshot_or_definition :: "'p PackageReference \<Rightarrow> error + 'p option" where
  "snapshot_or_definition ref =
     (if is_PartialPackage ref then Snapshot ref else Definition ref)"

text \<open>
  The loop of \<open>PackageSnapshots\<close> over the sorted keys. The pair \<open>(nil, err)\<close> is \<open>Inl err\<close>
  and \<open>(values, nil)\<close> is \<open>Inr values\<close>; the character \<open>0x27\<close> is the single quote.
\<close>

fun PackageSnapshots_loop ::
  "(string \<rightharpoonup> 'p PackageReference) \<Rightarrow> 'p option list \<Rightarrow> string list
   \<Rightarrow> error + 'p option list" where
  "PackageSnapshots_loop m vals [] = Inr vals"
| "PackageSnapshots_loop m vals (k # keys) =
     (let ref = the (m k) in
      case snapshot_or_definition ref of
        Inl err \<Rightarrow>
          Inl (Errorf_w (''defining package '' @ [CHR 0x27] @ Name ref @ [CHR 0x27] @ '': '') err)
      | Inr pkg \<Rightarrow> PackageSnapshots_loop m (vals @ [pkg]) keys)"

definition PackageSnapshots ::
  "string list \<Rightarrow> 'p Program \<Rightarrow> (error + 'p option list) \<times> 'p Program" where
  "PackageSnapshots ks p =
     (let keys = sort (append_keys [] ks)
      in (PackageSnapshots_loop (referencedPackages (binder_field p)) [] keys, p))"


section \<open>Example programs\<close>

text \<open>
  Packages are numbered. \<open>good_program\<close> references a full package and a partial one whose
  snapshot differs from its full definition. In \<open>failing_program\<close> the definition of the
  full package cannot be loaded; in \<open>snapshot_failing_program\<close> the snapshot of the
  partial package cannot be produced.
\<close>

definition good_program :: "nat Program" where
  "good_program = \<lparr>Nodes = [0, 1], files = [0],
     binder_field = \<lparr>referencedPackages =
       [''random'' \<mapsto> PartialPackage ''random'' (Inr (Some 11)) (Inr (Some 12)),
        ''aws'' \<mapsto> PackageDefRef ''aws'' (Inr (Some 10))]\<rparr>\<rparr>"

definition failing_program :: "nat Program" where
  "failing_program = \<lparr>Nodes = [0, 1], files = [0],
     binder_field = \<lparr>referencedPackages =
       [''random'' \<mapsto> PartialPackage ''random'' (Inr (Some 11)) (Inr (Some 12)),
        ''aws'' \<mapsto> PackageDefRef ''aws'' (Inl (ExternalError ''not found''))]\<rparr>\<rparr>"

definition snapshot_failing_program :: "nat Program" where
  "snapshot_failing_program = \<lparr>Nodes = [0, 1], files = [0],
     binder_field = \<lparr>referencedPackages =
       [''random'' \<mapsto> PartialPackage ''random'' (Inr (Some 11))
          (Inl (ExternalError ''malformed schema'')),
        ''aws'' \<mapsto> PackageDefRef ''aws'' (Inr (Some 10))]\<rparr>\<rparr>"


section \<open>The package queries over a store\<close>

text \<open>
  In the running program the table holds interface values: each is a pointer to an object
  of package \<open>schema\<close>, and \<open>Name()\<close>, \<open>Definition()\<close> and \<open>Snapshot()\<close> run code of that
  package, which may write (a partial package that loads its full definition keeps it).
  In this second embedding a reference is such a pointer, of type \<open>'r\<close>. The store holds
  the program and, as \<open>schema\<close>, everything that package \<open>schema\<close> keeps. The three
  methods of a reference are parameters: each takes the store and returns its result with
  the store after the call. The type test of a pointer does not depend on the store.
\<close>

record 'r binder_struct_s =
  referencedPackages_s :: "string \<rightharpoonup> 'r"

record 'r Program_s =
  Nodes_s :: "Node list"
  files_s :: "File list"
  binder_s :: "'r binder_struct_s"

record ('r, 'w) store =
  program :: "'r Program_s"
  schema :: 'w

record ('r, 'w, 'p) schema_calls =
  is_PartialPackage_s :: "'r \<Rightarrow> bool"
  Name_s :: "'r \<Rightarrow> ('r, 'w) store \<Rightarrow> string \<times> ('r, 'w) store"
  Definition_s :: "'r \<Rightarrow> ('r, 'w) store \<Rightarrow> (error + 'p option) \<times> ('r, 'w) store"
  Snapshot_s :: "'r \<Rightarrow> ('r, 'w) store \<Rightarrow> (error + 'p option) \<times> ('r, 'w) store"

text \<open>
  Package \<open>schema\<close> cannot name the program or its table (package \<open>pcl\<close> imports it, not
  the reverse): a call into it leaves the program part of the store as it is.
\<close>

definition calls_keep_program :: "('r, 'w, 'p) schema_calls \<Rightarrow> bool" where
  "calls_keep_program c \<longleftrightarrow>
     (\<forall>r s. program (snd (Name_s c r s)) = program s)
     \<and> (\<forall>r s. program (snd (Definition_s c r s)) = program s)
     \<and> (\<forall>r s. program (snd (Snapshot_s c r s)) = program s)"

fun append_values_s :: "(string \<rightharpoonup> 'r) \<Rightarrow> 'r list \<Rightarrow> string list \<Rightarrow> 'r list" where
  "append_values_s m vals [] = vals"
| "append_values_s m vals (k # keys) = append_values_s m (vals @ [the (m k)]) keys"

definition PackageReferences_s ::
  "string list \<Rightarrow> ('r, 'w) store \<Rightarrow> 'r list \<times> ('r, 'w) store" where
  "PackageReferences_s ks s =
     (let keys = sort (append_keys [] ks);
          vals = append_values_s (referencedPackages_s (binder_s (program s))) [] keys
      in (vals, s))"

fun Packages_loop_s ::
  "('r, 'w, 'p) schema_calls \<Rightarrow> nat \<Rightarrow> 'r list \<Rightarrow> 'p option list \<Rightarrow> ('r, 'w) store
   \<Rightarrow> 'p option list outcome \<times> ('r, 'w) store" where
  "Packages_loop_s c i [] defs s = (Returns defs, s)"
| "Packages_loop_s c i (ref # refs) defs s =
     (case Definition_s c ref s of
        (Inl err, s') \<Rightarrow> (Panics (Errorf_w ''loading package definition: '' err), s')
      | (Inr def, s') \<Rightarrow> Packages_loop_s c (Suc i) refs (defs[i := def]) s')"

definition Packages_s ::
  "('r, 'w, 'p) schema_calls \<Rightarrow> string list \<Rightarrow> ('r, 'w) store
   \<Rightarrow> 'p option list outcome \<times> ('r, 'w) store" where
  "Packages_s c ks s =
     (case PackageReferences_s ks s of
        (refs, s') \<Rightarrow> Packages_loop_s c 0 refs (replicate (length refs) None) s')"

text \<open>
  The loop of \<open>PackageSnapshots\<close> reads the table at every turn, after the calls of the
  turns before it; \<open>ref.Name()\<close> is called once the snapshot or definition has failed.
\<close>

fun PackageSnapshots_loop_s ::
  "('r, 'w, 'p) schema_calls \<Rightarrow> 'p option list \<Rightarrow> string list \<Rightarrow> ('r, 'w) store
   \<Rightarrow> (error + 'p option list) \<times> ('r, 'w) store" where
  "PackageSnapshots_loop_s c vals [] s = (Inr vals, s)"
| "PackageSnapshots_loop_s c vals (k # keys) s =
     (let ref = the (referencedPackages_s (binder_s (program s)) k) in
      case (if is_PartialPackage_s c ref then Snapshot_s c ref s else Definition_s c ref s) of
        (Inl err, s') \<Rightarrow>
          (case Name_s c ref s' of
             (name, s'') \<Rightarrow>
               (Inl (Errorf_w (''defining package '' @ [CHR 0x27] @ name @ [CHR 0x27] @ '': '')
                  err), s''))
      | (Inr pkg, s') \<Rightarrow> PackageSnapshots_loop_s c (vals @ [pkg]) keys s')"

definition PackageSnapshots_s ::
  "('r, 'w, 'p) schema_calls \<Rightarrow> string list \<Rightarrow> ('r, 'w) store
   \<Rightarrow> (error + 'p option list) \<times> ('r, 'w) store" where
  "PackageSnapshots_s c ks s =
     (let keys = sort (append_keys [] ks)
      in PackageSnapshots_loop_s c [] keys s)"

text \<open>
  The first embedding is this one when a pointer is the reference value itself and the
  calls have no effect: \<open>value_calls\<close> are these calls, \<open>store_of\<close> the store of a
  program.
\<close>

definition value_calls :: "('p PackageReference, unit, 'p) schema_calls" where
  "value_calls = \<lparr>is_PartialPackage_s = is_PartialPackage,
     Name_s = (\<lambda>r s. (Name r, s)),
     Definition_s = (\<lambda>r s. (Definition r, s)),
     Snapshot_s = (\<lambda>r s. (Snapshot r, s))\<rparr>"

definition store_of :: "'p Program \<Rightarrow> ('p PackageReference, unit) store" where
  "store_of p = \<lparr>program = \<lparr>Nodes_s = Nodes p, files_s = files p,
     binder_s = \<lparr>referencedPackages_s = referencedPackages (binder_field p)\<rparr>\<rparr>,
     schema = ()\<rparr>"

text \<open>
  An example with effects. Pointers are named by their package, packages are numbered,
  and the schema state is the set of references whose full definition has been loaded.
  \<open>Definition()\<close> loads it; \<open>Snapshot()\<close> of the partial package \<open>random\<close> gives the
  package 12 before its definition is loaded and the full package 11 after.
\<close>

definition caching_calls :: "(string, string set, nat) schema_calls" where
  "caching_calls = \<lparr>is_PartialPackage_s = (\<lambda>r. r = ''random''),
     Name_s = (\<lambda>r s. (r, s)),
     Definition_s = (\<lambda>r s. (Inr (Some (if r = ''random'' then 11 else 10)),
        s\<lparr>schema := insert r (schema s)\<rparr>)),
     Snapshot_s = (\<lambda>r s. (Inr (Some (if r \<in> schema s then 11 else 12)), s))\<rparr>"

definition example_store :: "(string, string set) store" where
  "example_store = \<lparr>program = \<lparr>Nodes_s = [0, 1], files_s = [0],
     binder_s = \<lparr>referencedPackages_s = [''random'' \<mapsto> ''random'', ''aws'' \<mapsto> ''aws'']\<rparr>\<rparr>,
     schema = {}\<rparr>"


section \<open>Properties of the node binding state\<close>

lemma run_calls_Nil: "run_calls [] r = r"
  by (simp add: run_calls_def)

lemma run_calls_snoc: "run_calls (cs @ [c]) r = apply_call (run_calls cs r) c"
  by (simp add: run_calls_def)

lemma binding_run_calls:
  "binding (run_calls cs r) \<longleftrightarrow> binding r \<or> MarkBinding \<in> set cs"
proof (induction cs rule: rev_induct)
  case Nil
  show ?case by (simp add: run_calls_Nil)
next
  case (snoc c cs)
  then show ?case
    by (cases c) (auto simp: run_calls_snoc markBinding_def markBound_def)
qed

lemma bound_run_calls:
  "bound (run_calls cs r) \<longleftrightarrow> bound r \<or> MarkBound \<in> set cs"
proof (induction cs rule: rev_induct)
  case Nil
  show ?case by (simp add: run_calls_Nil)
next
  case (snoc c cs)
  then show ?case
    by (cases c) (auto simp: run_calls_snoc markBinding_def markBound_def)
qed

lemma deps_run_calls: "deps (run_calls cs r) = deps r"
proof (induction cs rule: rev_induct)
  case Nil
  show ?case by (simp add: run_calls_Nil)
next
  case (snoc c cs)
  then show ?case
    by (cases c) (simp_all add: run_calls_snoc markBinding_def markBound_def)
qed

text \<open>
  Claim C10. A freshly created node (the zero value, before any call of \<open>markBinding\<close>,
  \<open>markBound\<close> or \<open>setDependencies\<close>) is neither binding nor bound and has no
  dependencies: it is in the state \<open>Unbound\<close>.
\<close>

theorem fresh_node_unbound:
  "isBinding zero_node = False \<and> isBound zero_node = False
   \<and> getDependencies zero_node = [] \<and> state_of zero_node = Unbound"
  by (simp add: zero_node_def isBinding_def isBound_def getDependencies_def state_of_def)

text \<open>
  Claim C4. After any sequence of \<open>markBinding\<close>/\<open>markBound\<close> calls on a fresh node,
  \<open>isBinding\<close> is true exactly when \<open>markBinding\<close> occurs in the sequence and
  \<open>markBound\<close> does not. From any node \<open>r\<close>, it is true exactly when the node ends in
  the state \<open>Binding\<close>: \<open>markBinding\<close> was called, before or during the sequence, and
  \<open>markBound\<close> was not.
\<close>

theorem isBinding_iff_marked:
  "(isBinding (run_calls cs zero_node) = (MarkBinding \<in> set cs \<and> MarkBound \<notin> set cs))
   \<and> (isBinding (run_calls cs r) = (state_of (run_calls cs r) = Binding))
   \<and> (isBinding (run_calls cs r) =
        ((binding r \<or> MarkBinding \<in> set cs) \<and> \<not> (bound r \<or> MarkBound \<in> set cs)))"
  by (simp add: isBinding_def state_of_def binding_run_calls bound_run_calls zero_node_def)

text \<open>
  Claim C5. Once \<open>markBound\<close> has been called on a node, in whatever state, every further
  sequence of \<open>markBinding\<close>/\<open>markBound\<close> calls leaves \<open>isBound\<close> true and \<open>isBinding\<close>
  false: the node stays in the state \<open>Bound\<close>.
\<close>

theorem bound_is_permanent:
  "isBound (run_calls cs (markBound r)) = True
   \<and> isBinding (run_calls cs (markBound r)) = False
   \<and> state_of (run_calls cs (markBound r)) = Bound"
  by (simp add: isBound_def isBinding_def state_of_def bound_run_calls markBound_def)

text \<open>
  Claim C7, as stated, fails: the transition methods have no guard. On a fresh node, where
  the specification's machine rejects \<open>markBound\<close>, the code makes the node \<open>Bound\<close>; on a
  node already \<open>Binding\<close>, where the machine rejects a second \<open>markBinding\<close>, the code
  returns the node as it was.
\<close>

theorem transitions_unguarded_counterexample:
  "spec_guarded_transition (state_of zero_node) MarkBound = None
   \<and> state_of (markBound zero_node) = Bound
   \<and> isBound (markBound zero_node) = True
   \<and> spec_guarded_transition (state_of (markBinding zero_node)) MarkBinding = None
   \<and> markBinding (markBinding zero_node) = markBinding zero_node
   \<and> isBinding (markBinding (markBinding zero_node)) = True"
  by (simp add: zero_node_def state_of_def markBound_def markBinding_def isBound_def
      isBinding_def)

text \<open>
  Claim C7, amended. The transition methods are unconditional: in every state,
  \<open>markBinding\<close> sets the binding flag and \<open>markBound\<close> sets the bound flag, and neither
  touches anything else. So \<open>markBound\<close> always ends in \<open>Bound\<close>, and \<open>markBinding\<close> ends
  in \<open>Binding\<close> unless the node is already \<open>Bound\<close>.
\<close>

theorem transitions_unconditional:
  "state_of (markBound r) = Bound
   \<and> state_of (markBinding r) = (if bound r then Bound else Binding)
   \<and> binding (markBinding r) = True \<and> bound (markBinding r) = bound r
   \<and> deps (markBinding r) = deps r
   \<and> bound (markBound r) = True \<and> binding (markBound r) = binding r
   \<and> deps (markBound r) = deps r"
  by (simp add: state_of_def markBound_def markBinding_def)

text \<open>
  Claim C8, as stated, fails: \<open>getDependencies\<close> has no guard either. A node that is
  \<open>Binding\<close> and not \<open>Bound\<close>, and whose dependencies were set, returns them.
\<close>

theorem getDependencies_before_bound_counterexample:
  "isBound (setDependencies [7] (markBinding zero_node)) = False
   \<and> state_of (setDependencies [7] (markBinding zero_node)) = Binding
   \<and> getDependencies (setDependencies [7] (markBinding zero_node)) = [7]"
  by (simp add: zero_node_def state_of_def markBinding_def isBound_def
      setDependencies_def getDependencies_def)

text \<open>
  Claim C8, amended. In every binding state \<open>getDependencies\<close> returns the list last
  passed to \<open>setDependencies\<close> (the empty list when there was no such call): setting the
  dependencies is read back at once, and the transition methods do not change the answer.
\<close>

theorem getDependencies_any_state:
  "getDependencies (setDependencies nodes r) = nodes
   \<and> getDependencies (run_calls cs (setDependencies nodes r)) = nodes
   \<and> getDependencies (run_calls cs zero_node) = []
   \<and> isBound (setDependencies nodes r) = isBound r
   \<and> isBinding (setDependencies nodes r) = isBinding r"
  by (simp add: getDependencies_def setDependencies_def deps_run_calls zero_node_def
      isBound_def isBinding_def)

section \<open>Properties of the package queries\<close>

subsection \<open>The loops\<close>

lemma append_keys_eq: "append_keys keys ks = keys @ ks"
  by (induction ks arbitrary: keys) simp_all

lemma append_values_eq: "append_values m vals keys = vals @ map (\<lambda>k. the (m k)) keys"
  by (induction keys arbitrary: vals) simp_all

lemma sort_range_order:
  assumes "range_order m ks"
  shows "sort ks = sorted_list_of_set (dom m)"
proof -
  from assms have d: "distinct ks" and s: "set ks = dom m"
    by (simp_all add: range_order_def)
  have "sorted_list_of_set (set ks) = sort (remdups ks)"
    by (rule sorted_list_of_set_sort_remdups)
  with d s show ?thesis by (simp add: distinct_remdups_id)
qed

lemma range_order_finite: "range_order m ks \<Longrightarrow> finite (dom m)"
  by (auto simp: range_order_def dest: sym)

lemma Packages_loop_ok:
  "\<forall>r\<in>set refs. \<not> isl (Definition r) \<Longrightarrow> i + length refs \<le> length defs \<Longrightarrow>
   Packages_loop i refs defs =
     Returns (take i defs @ map (\<lambda>r. projr (Definition r)) refs @ drop (i + length refs) defs)"
proof (induction refs arbitrary: i defs)
  case Nil
  then show ?case by simp
next
  case (Cons r refs)
  from Cons.prems obtain d where d: "Definition r = Inr d"
    by (cases "Definition r") auto
  from Cons.prems have len: "i < length defs" "Suc i + length refs \<le> length (defs[i := d])"
    by simp_all
  from Cons.prems have rest: "\<forall>r\<in>set refs. \<not> isl (Definition r)" by simp
  have "Packages_loop i (r # refs) defs = Packages_loop (Suc i) refs (defs[i := d])"
    by (simp add: d)
  also have "\<dots> = Returns (take (Suc i) (defs[i := d]) @ map (\<lambda>r. projr (Definition r)) refs
      @ drop (Suc i + length refs) (defs[i := d]))"
    by (rule Cons.IH [OF rest len(2)])
  also have "take (Suc i) (defs[i := d]) = take i defs @ [d]"
    using len(1) by (simp add: take_Suc_conv_app_nth)
  also have "drop (Suc i + length refs) (defs[i := d]) = drop (i + length (r # refs)) defs"
    by simp
  finally show ?case by (simp add: d)
qed

lemma Packages_loop_fail:
  "\<forall>r\<in>set pre. \<not> isl (Definition r) \<Longrightarrow> Definition r = Inl err \<Longrightarrow>
   Packages_loop i (pre @ r # post) defs =
     Panics (Errorf_w ''loading package definition: '' err)"
proof (induction pre arbitrary: i defs)
  case Nil
  then show ?case by simp
next
  case (Cons a pre)
  from Cons.prems obtain d where d: "Definition a = Inr d"
    by (cases "Definition a") auto
  with Cons show ?case by simp
qed

lemma PackageSnapshots_loop_ok:
  "\<forall>k\<in>set keys. \<not> isl (snapshot_or_definition (the (m k))) \<Longrightarrow>
   PackageSnapshots_loop m vals keys =
     Inr (vals @ map (\<lambda>k. projr (snapshot_or_definition (the (m k)))) keys)"
proof (induction keys arbitrary: vals)
  case Nil
  then show ?case by simp
next
  case (Cons k keys)
  from Cons.prems obtain d where d: "snapshot_or_definition (the (m k)) = Inr d"
    by (cases "snapshot_or_definition (the (m k))") auto
  with Cons show ?case by simp
qed

lemma PackageSnapshots_loop_fail:
  "\<forall>k\<in>set pre. \<not> isl (snapshot_or_definition (the (m k))) \<Longrightarrow>
   snapshot_or_definition (the (m k)) = Inl err \<Longrightarrow>
   PackageSnapshots_loop m vals (pre @ k # post) =
     Inl (Errorf_w (''defining package '' @ [CHR 0x27] @ Name (the (m k)) @ [CHR 0x27] @ '': '')
       err)"
proof (induction pre arbitrary: vals)
  case Nil
  then show ?case by simp
next
  case (Cons a pre)
  from Cons.prems obtain d where d: "snapshot_or_definition (the (m a)) = Inr d"
    by (cases "snapshot_or_definition (the (m a))") auto
  with Cons show ?case by simp
qed

text \<open>The first failing name of a strictly ascending list is the least failing name.\<close>

lemma first_failure_split:
  fixes keys :: "string list"
  assumes "sorted keys" and "distinct keys" and "\<exists>k\<in>set keys. P k"
  shows "\<exists>pre k post. keys = pre @ k # post \<and> P k \<and> (\<forall>a\<in>set pre. \<not> P a)
     \<and> (\<forall>a\<in>set keys. a < k \<longrightarrow> \<not> P a)"
proof -
  from assms(3) obtain pre k post
    where split: "keys = pre @ k # post" "P k" "\<forall>a\<in>set pre. \<not> P a"
    by (rule split_list_first_propE)
  have "\<not> P a" if "a \<in> set keys" "a < k" for a
  proof -
    from assms(1) split(1) have "\<forall>b\<in>set post. k \<le> b"
      by (simp add: sorted_append)
    with that split(1) have "a \<in> set pre" by auto
    with split(3) show ?thesis by simp
  qed
  with split show ?thesis by blast
qed

lemma Packages_loop_Returns_all_ok:
  assumes "Packages_loop i refs defs = Returns x"
  shows "\<forall>r\<in>set refs. \<not> isl (Definition r)"
proof (rule ccontr)
  assume "\<not> (\<forall>r\<in>set refs. \<not> isl (Definition r))"
  then have "\<exists>r\<in>set refs. isl (Definition r)" by simp
  then obtain pre r post
    where split: "refs = pre @ r # post" "isl (Definition r)"
      "\<forall>a\<in>set pre. \<not> isl (Definition a)"
    by (rule split_list_first_propE)
  from split(2) obtain err where "Definition r = Inl err"
    by (cases "Definition r") auto
  from Packages_loop_fail [OF split(3) this] split(1) assms show False by simp
qed

lemma PackageSnapshots_loop_Inr_all_ok:
  assumes "PackageSnapshots_loop m vals keys = Inr x"
  shows "\<forall>k\<in>set keys. \<not> isl (snapshot_or_definition (the (m k)))"
proof (rule ccontr)
  assume "\<not> (\<forall>k\<in>set keys. \<not> isl (snapshot_or_definition (the (m k))))"
  then have "\<exists>k\<in>set keys. isl (snapshot_or_definition (the (m k)))" by simp
  then obtain pre k post
    where split: "keys = pre @ k # post" "isl (snapshot_or_definition (the (m k)))"
      "\<forall>a\<in>set pre. \<not> isl (snapshot_or_definition (the (m a)))"
    by (rule split_list_first_propE)
  from split(2) obtain err where "snapshot_or_definition (the (m k)) = Inl err"
    by (cases "snapshot_or_definition (the (m k))") auto
  from PackageSnapshots_loop_fail [OF split(3) this] split(1) assms show False by simp
qed

lemma map_Inr_projr: "\<forall>x\<in>set xs. \<not> isl (f x) \<Longrightarrow> map Inr (map (\<lambda>x. projr (f x)) xs) = map f xs"
  by (induction xs) simp_all

lemma fst_PackageReferences:
  "fst (PackageReferences ks p) =
     map (\<lambda>k. the (referencedPackages (binder_field p) k)) (sort ks)"
  by (simp add: PackageReferences_def Let_def append_keys_eq append_values_eq)

lemma fst_Packages:
  "fst (Packages ks p) =
     Packages_loop 0 (fst (PackageReferences ks p))
       (replicate (length (fst (PackageReferences ks p))) None)"
  by (simp add: Packages_def split: prod.splits)

lemma fst_PackageSnapshots:
  "fst (PackageSnapshots ks p) =
     PackageSnapshots_loop (referencedPackages (binder_field p)) [] (sort ks)"
  by (simp add: PackageSnapshots_def Let_def append_keys_eq)

lemma Packages_Returns:
  assumes "fst (Packages ks p) = Returns defs"
  shows "map Inr defs =
     map (\<lambda>k. Definition (the (referencedPackages (binder_field p) k))) (sort ks)"
proof -
  let ?refs = "fst (PackageReferences ks p)"
  from assms have run: "Packages_loop 0 ?refs (replicate (length ?refs) None) = Returns defs"
    by (simp add: fst_Packages)
  then have ok: "\<forall>r\<in>set ?refs. \<not> isl (Definition r)"
    by (rule Packages_loop_Returns_all_ok)
  have "Packages_loop 0 ?refs (replicate (length ?refs) None) =
      Returns (take 0 (replicate (length ?refs) None) @ map (\<lambda>r. projr (Definition r)) ?refs
        @ drop (0 + length ?refs) (replicate (length ?refs) None))"
    by (rule Packages_loop_ok [OF ok]) simp
  with run have "defs = map (\<lambda>r. projr (Definition r)) ?refs" by simp
  then have "map Inr defs = map Definition ?refs"
    using ok by (simp only: map_Inr_projr)
  then show ?thesis by (simp add: fst_PackageReferences comp_def)
qed

lemma PackageSnapshots_Inr:
  assumes "fst (PackageSnapshots ks p) = Inr vals"
  shows "map Inr vals =
     map (\<lambda>k. snapshot_or_definition (the (referencedPackages (binder_field p) k))) (sort ks)"
proof -
  let ?m = "referencedPackages (binder_field p)"
  from assms have run: "PackageSnapshots_loop ?m [] (sort ks) = Inr vals"
    by (simp add: fst_PackageSnapshots)
  then have ok: "\<forall>k\<in>set (sort ks). \<not> isl (snapshot_or_definition (the (?m k)))"
    by (rule PackageSnapshots_loop_Inr_all_ok)
  from PackageSnapshots_loop_ok [OF ok, of "[]"] run
  have "vals = map (\<lambda>k. projr (snapshot_or_definition (the (?m k)))) (sort ks)" by simp
  then show ?thesis using ok by (simp only: map_Inr_projr)
qed

lemma snd_queries:
  "snd (PackageReferences ks p) = p" "snd (Packages ks p) = p" "snd (PackageSnapshots ks p) = p"
  by (simp_all add: PackageReferences_def Packages_def PackageSnapshots_def Let_def
      split: prod.splits)

lemma queries_depend_on_sorted_keys:
  assumes "sort ks' = sort ks"
  shows "PackageReferences ks' p = PackageReferences ks p"
    and "Packages ks' p = Packages ks p"
    and "PackageSnapshots ks' p = PackageSnapshots ks p"
  using assms
  by (simp_all add: prod_eq_iff snd_queries fst_PackageReferences fst_Packages
      fst_PackageSnapshots)


lemma Packages_all_ok:
  assumes "\<forall>k\<in>set (sort ks). \<not> isl (Definition (the (referencedPackages (binder_field p) k)))"
  shows "fst (Packages ks p) =
     Returns (map (\<lambda>k. projr (Definition (the (referencedPackages (binder_field p) k))))
       (sort ks))"
proof -
  let ?refs = "fst (PackageReferences ks p)"
  have refs: "?refs = map (\<lambda>k. the (referencedPackages (binder_field p) k)) (sort ks)"
    by (rule fst_PackageReferences)
  from assms have ok: "\<forall>r\<in>set ?refs. \<not> isl (Definition r)"
    by (simp add: refs)
  have "Packages_loop 0 ?refs (replicate (length ?refs) None) =
      Returns (take 0 (replicate (length ?refs) None) @ map (\<lambda>r. projr (Definition r)) ?refs
        @ drop (0 + length ?refs) (replicate (length ?refs) None))"
    by (rule Packages_loop_ok [OF ok]) simp
  then show ?thesis
    by (simp add: fst_Packages refs comp_def)
qed

lemma PackageSnapshots_all_ok:
  assumes "\<forall>k\<in>set (sort ks).
     \<not> isl (snapshot_or_definition (the (referencedPackages (binder_field p) k)))"
  shows "fst (PackageSnapshots ks p) =
     Inr (map (\<lambda>k. projr (snapshot_or_definition (the (referencedPackages (binder_field p) k))))
       (sort ks))"
  using PackageSnapshots_loop_ok [OF assms, of "[]"] by (simp add: fst_PackageSnapshots)

subsection \<open>The example programs\<close>

lemma good_program_range_order:
  "range_order (referencedPackages (binder_field good_program)) [''random'', ''aws'']"
  "range_order (referencedPackages (binder_field good_program)) [''aws'', ''random'']"
  by (auto simp add: range_order_def good_program_def)

lemma failing_program_range_order:
  "range_order (referencedPackages (binder_field failing_program)) [''random'', ''aws'']"
  by (auto simp add: range_order_def failing_program_def)

lemma snapshot_failing_program_range_order:
  "range_order (referencedPackages (binder_field snapshot_failing_program)) [''random'', ''aws'']"
  by (auto simp add: range_order_def snapshot_failing_program_def)

lemma good_program_results:
  "fst (PackageReferences [''random'', ''aws''] good_program) =
     [PackageDefRef ''aws'' (Inr (Some 10)),
      PartialPackage ''random'' (Inr (Some 11)) (Inr (Some 12))]"
  "fst (Packages [''aws'', ''random''] good_program) = Returns [Some 10, Some 11]"
  "fst (PackageSnapshots [''random'', ''aws''] good_program) = Inr [Some 10, Some 12]"
  by (simp_all add: good_program_def PackageReferences_def Packages_def PackageSnapshots_def
      snapshot_or_definition_def)


lemma good_program_all_ok:
  "\<not> (\<exists>k\<in>dom (referencedPackages (binder_field good_program)).
        isl (Definition (the (referencedPackages (binder_field good_program) k))))"
  "\<not> (\<exists>k\<in>dom (referencedPackages (binder_field good_program)).
        isl (snapshot_or_definition (the (referencedPackages (binder_field good_program) k))))"
  by (simp_all add: good_program_def snapshot_or_definition_def)

lemma good_program_sorted_keys:
  "sorted_list_of_set (dom (referencedPackages (binder_field good_program))) = [''aws'', ''random'']"
  using sort_range_order [OF good_program_range_order(1)] by simp


subsection \<open>Order and determinism\<close>

text \<open>
  Claim C3. Whatever the order in which \<open>range\<close> yields the keys, \<open>PackageReferences\<close>
  returns the references of the table's names in strictly ascending order of name, one for
  each name. When no \<open>Definition()\<close> fails, \<open>Packages\<close> returns the definitions of these
  same names in this same order; when no snapshot or definition fails, \<open>PackageSnapshots\<close>
  returns theirs; and a list that either query returns is this list. Two runs of a query
  on the same program, with whatever two iteration orders, return the same result.
\<close>

theorem queries_sorted_by_name:
  assumes "range_order (referencedPackages (binder_field p)) ks"
    and "range_order (referencedPackages (binder_field p)) ks'"
  shows "fst (PackageReferences ks p) =
       map (\<lambda>k. the (referencedPackages (binder_field p) k))
         (sorted_list_of_set (dom (referencedPackages (binder_field p))))
     \<and> length (fst (PackageReferences ks p)) = card (dom (referencedPackages (binder_field p)))
     \<and> (\<not> (\<exists>k\<in>dom (referencedPackages (binder_field p)).
              isl (Definition (the (referencedPackages (binder_field p) k)))) \<longrightarrow>
          fst (Packages ks p) =
            Returns (map (\<lambda>k. projr (Definition (the (referencedPackages (binder_field p) k))))
              (sorted_list_of_set (dom (referencedPackages (binder_field p))))))
     \<and> (\<not> (\<exists>k\<in>dom (referencedPackages (binder_field p)).
              isl (snapshot_or_definition (the (referencedPackages (binder_field p) k)))) \<longrightarrow>
          fst (PackageSnapshots ks p) =
            Inr (map (\<lambda>k. projr (snapshot_or_definition
                   (the (referencedPackages (binder_field p) k))))
              (sorted_list_of_set (dom (referencedPackages (binder_field p))))))
     \<and> (\<forall>defs. fst (Packages ks p) = Returns defs \<longrightarrow>
          map Inr defs =
            map (\<lambda>k. Definition (the (referencedPackages (binder_field p) k)))
              (sorted_list_of_set (dom (referencedPackages (binder_field p)))))
     \<and> (\<forall>vals. fst (PackageSnapshots ks p) = Inr vals \<longrightarrow>
          map Inr vals =
            map (\<lambda>k. snapshot_or_definition (the (referencedPackages (binder_field p) k)))
              (sorted_list_of_set (dom (referencedPackages (binder_field p)))))
     \<and> PackageReferences ks' p = PackageReferences ks p
     \<and> Packages ks' p = Packages ks p
     \<and> PackageSnapshots ks' p = PackageSnapshots ks p"
proof -
  let ?m = "referencedPackages (binder_field p)"
  have s: "sort ks = sorted_list_of_set (dom ?m)" and s': "sort ks' = sorted_list_of_set (dom ?m)"
    using assms by (simp_all add: sort_range_order)
  have fin: "finite (dom ?m)" using assms(1) by (rule range_order_finite)
  have keys: "set (sort ks) = dom ?m" using assms(1) by (simp add: range_order_def)
  have "fst (PackageReferences ks p) = map (\<lambda>k. the (?m k)) (sorted_list_of_set (dom ?m))"
    by (simp add: fst_PackageReferences s)
  moreover from this have "length (fst (PackageReferences ks p)) = card (dom ?m)"
    by simp
  moreover have "\<not> (\<exists>k\<in>dom ?m. isl (Definition (the (?m k)))) \<longrightarrow>
      fst (Packages ks p) =
        Returns (map (\<lambda>k. projr (Definition (the (?m k)))) (sorted_list_of_set (dom ?m)))"
  proof
    assume "\<not> (\<exists>k\<in>dom ?m. isl (Definition (the (?m k))))"
    with keys have "\<forall>k\<in>set (sort ks). \<not> isl (Definition (the (?m k)))" by simp
    from Packages_all_ok [OF this] show "fst (Packages ks p) =
        Returns (map (\<lambda>k. projr (Definition (the (?m k)))) (sorted_list_of_set (dom ?m)))"
      by (simp only: s)
  qed
  moreover have "\<not> (\<exists>k\<in>dom ?m. isl (snapshot_or_definition (the (?m k)))) \<longrightarrow>
      fst (PackageSnapshots ks p) =
        Inr (map (\<lambda>k. projr (snapshot_or_definition (the (?m k))))
          (sorted_list_of_set (dom ?m)))"
  proof
    assume "\<not> (\<exists>k\<in>dom ?m. isl (snapshot_or_definition (the (?m k))))"
    with keys have "\<forall>k\<in>set (sort ks). \<not> isl (snapshot_or_definition (the (?m k)))" by simp
    from PackageSnapshots_all_ok [OF this] show "fst (PackageSnapshots ks p) =
        Inr (map (\<lambda>k. projr (snapshot_or_definition (the (?m k))))
          (sorted_list_of_set (dom ?m)))"
      by (simp only: s)
  qed
  moreover have "\<forall>defs. fst (Packages ks p) = Returns defs \<longrightarrow>
      map Inr defs = map (\<lambda>k. Definition (the (?m k))) (sorted_list_of_set (dom ?m))"
    using Packages_Returns [of ks p] by (simp add: s)
  moreover have "\<forall>vals. fst (PackageSnapshots ks p) = Inr vals \<longrightarrow>
      map Inr vals = map (\<lambda>k. snapshot_or_definition (the (?m k))) (sorted_list_of_set (dom ?m))"
    using PackageSnapshots_Inr [of ks p] by (simp add: s)
  moreover have "PackageReferences ks' p = PackageReferences ks p"
    "Packages ks' p = Packages ks p" "PackageSnapshots ks' p = PackageSnapshots ks p"
    using s s' by (simp_all add: queries_depend_on_sorted_keys)
  ultimately show ?thesis by blast
qed

theorem queries_sorted_by_name_witness:
  "range_order (referencedPackages (binder_field good_program)) [''random'', ''aws'']
   \<and> range_order (referencedPackages (binder_field good_program)) [''aws'', ''random'']
   \<and> \<not> (\<exists>k\<in>dom (referencedPackages (binder_field good_program)).
        isl (Definition (the (referencedPackages (binder_field good_program) k))))
   \<and> \<not> (\<exists>k\<in>dom (referencedPackages (binder_field good_program)).
        isl (snapshot_or_definition (the (referencedPackages (binder_field good_program) k))))
   \<and> sorted_list_of_set (dom (referencedPackages (binder_field good_program))) =
       [''aws'', ''random'']
   \<and> fst (PackageReferences [''random'', ''aws''] good_program) =
       [PackageDefRef ''aws'' (Inr (Some 10)),
        PartialPackage ''random'' (Inr (Some 11)) (Inr (Some 12))]
   \<and> fst (Packages [''random'', ''aws''] good_program) = Returns [Some 10, Some 11]
   \<and> fst (PackageSnapshots [''random'', ''aws''] good_program) = Inr [Some 10, Some 12]
   \<and> PackageReferences [''aws'', ''random''] good_program =
       PackageReferences [''random'', ''aws''] good_program
   \<and> Packages [''aws'', ''random''] good_program = Packages [''random'', ''aws''] good_program
   \<and> PackageSnapshots [''aws'', ''random''] good_program =
       PackageSnapshots [''random'', ''aws''] good_program"
proof -
  note main = queries_sorted_by_name [OF good_program_range_order]
  have vals: "map (\<lambda>k. the (referencedPackages (binder_field good_program) k)) [''aws'', ''random'']
      = [PackageDefRef ''aws'' (Inr (Some 10)),
         PartialPackage ''random'' (Inr (Some 11)) (Inr (Some 12))]"
    "map (\<lambda>k. projr (Definition (the (referencedPackages (binder_field good_program) k))))
       [''aws'', ''random''] = [Some 10, Some 11]"
    "map (\<lambda>k. projr (snapshot_or_definition
       (the (referencedPackages (binder_field good_program) k)))) [''aws'', ''random'']
       = [Some 10, Some 12]"
    by (simp_all add: good_program_def snapshot_or_definition_def)
  from main good_program_all_ok
  have "fst (PackageReferences [''random'', ''aws''] good_program) =
       [PackageDefRef ''aws'' (Inr (Some 10)),
        PartialPackage ''random'' (Inr (Some 11)) (Inr (Some 12))]"
    and "fst (Packages [''random'', ''aws''] good_program) = Returns [Some 10, Some 11]"
    and "fst (PackageSnapshots [''random'', ''aws''] good_program) = Inr [Some 10, Some 12]"
    by (simp_all only: good_program_sorted_keys vals simp_thms)
  with main good_program_range_order good_program_all_ok good_program_sorted_keys
  show ?thesis by blast
qed


subsection \<open>Failures\<close>

text \<open>
  Claim C1, as stated, fails: a failing \<open>Definition()\<close> makes \<open>Packages\<close> panic, it does
  not return an error. In \<open>failing_program\<close> the package \<open>aws\<close> cannot be loaded.
\<close>

theorem Packages_error_counterexample:
  "Definition (the (referencedPackages (binder_field failing_program) ''aws''))
     = Inl (ExternalError ''not found'')
   \<and> fst (Packages [''random'', ''aws''] failing_program)
     = Panics (WrapError ''loading package definition: not found'' (ExternalError ''not found''))"
  by (simp add: failing_program_def Packages_def PackageReferences_def Errorf_w_def)

text \<open>
  Claim C1, amended. If the \<open>Definition()\<close> of some referenced package fails, \<open>Packages\<close>
  panics with the error \<open>loading package definition: \<close> followed by the message of the
  failure, which it wraps; the failure is that of the first failing package in ascending
  order of name. It returns no list, so no partial list either.
\<close>

theorem Packages_failure_panics:
  assumes "range_order (referencedPackages (binder_field p)) ks"
    and "\<exists>k\<in>dom (referencedPackages (binder_field p)).
           isl (Definition (the (referencedPackages (binder_field p) k)))"
  shows "\<exists>k err. k \<in> dom (referencedPackages (binder_field p))
     \<and> Definition (the (referencedPackages (binder_field p) k)) = Inl err
     \<and> (\<forall>a\<in>dom (referencedPackages (binder_field p)).
           a < k \<longrightarrow> \<not> isl (Definition (the (referencedPackages (binder_field p) a))))
     \<and> fst (Packages ks p) =
           Panics (WrapError (''loading package definition: '' @ Error err) err)
     \<and> (\<forall>defs. fst (Packages ks p) \<noteq> Returns defs)"
proof -
  let ?m = "referencedPackages (binder_field p)"
  let ?bad = "\<lambda>k. isl (Definition (the (?m k)))"
  from assms(1) have set: "set (sort ks) = dom ?m" and so: "sorted (sort ks)"
    and di: "distinct (sort ks)"
    by (simp_all add: range_order_def)
  from assms(2) set have "\<exists>k\<in>set (sort ks). ?bad k" by simp
  from first_failure_split [OF so di this] obtain pre k post
    where split: "sort ks = pre @ k # post" "?bad k" "\<forall>a\<in>set pre. \<not> ?bad a"
      "\<forall>a\<in>set (sort ks). a < k \<longrightarrow> \<not> ?bad a"
    by blast
  from split(2) obtain err where err: "Definition (the (?m k)) = Inl err"
    by (cases "Definition (the (?m k))") auto
  have refs: "fst (PackageReferences ks p) =
      map (\<lambda>k. the (?m k)) pre @ the (?m k) # map (\<lambda>k. the (?m k)) post"
    by (simp add: fst_PackageReferences split(1))
  have pre: "\<forall>r\<in>set (map (\<lambda>k. the (?m k)) pre). \<not> isl (Definition r)"
    using split(3) by simp
  have run: "fst (Packages ks p) = Panics (Errorf_w ''loading package definition: '' err)"
    unfolding fst_Packages refs by (rule Packages_loop_fail [OF pre err])
  have "k \<in> dom ?m" using split(1) set by (metis in_set_conv_decomp)
  moreover have "\<forall>a\<in>dom ?m. a < k \<longrightarrow> \<not> ?bad a" using split(4) set by simp
  moreover have "fst (Packages ks p) =
      Panics (WrapError (''loading package definition: '' @ Error err) err)"
    using run by (simp add: Errorf_w_def)
  moreover from this have "\<forall>defs. fst (Packages ks p) \<noteq> Returns defs" by simp
  ultimately show ?thesis using err by blast
qed

theorem Packages_failure_panics_witness:
  "range_order (referencedPackages (binder_field failing_program)) [''random'', ''aws'']
   \<and> (\<exists>k\<in>dom (referencedPackages (binder_field failing_program)).
         isl (Definition (the (referencedPackages (binder_field failing_program) k))))
   \<and> (\<exists>k err. k \<in> dom (referencedPackages (binder_field failing_program))
     \<and> Definition (the (referencedPackages (binder_field failing_program) k)) = Inl err
     \<and> (\<forall>a\<in>dom (referencedPackages (binder_field failing_program)).
           a < k \<longrightarrow> \<not> isl (Definition (the (referencedPackages (binder_field failing_program) a))))
     \<and> fst (Packages [''random'', ''aws''] failing_program) =
           Panics (WrapError (''loading package definition: '' @ Error err) err)
     \<and> (\<forall>defs. fst (Packages [''random'', ''aws''] failing_program) \<noteq> Returns defs))"
proof -
  have h: "\<exists>k\<in>dom (referencedPackages (binder_field failing_program)).
         isl (Definition (the (referencedPackages (binder_field failing_program) k)))"
    by (simp add: failing_program_def)
  from Packages_failure_panics [OF failing_program_range_order h] failing_program_range_order h
  show ?thesis by blast
qed

text \<open>
  Claim C2. If the snapshot of a partial package, or the definition of a full one, fails
  for some referenced package, \<open>PackageSnapshots\<close> returns an error and no list. The error
  wraps the failure of the first failing package in ascending order of name, and its
  message is \<open>defining package '\<close>, the name of that package, \<open>': \<close> and the message of the
  failure.
\<close>

theorem PackageSnapshots_failure_names_package:
  assumes "range_order (referencedPackages (binder_field p)) ks"
    and "\<exists>k\<in>dom (referencedPackages (binder_field p)).
           isl (snapshot_or_definition (the (referencedPackages (binder_field p) k)))"
  shows "\<exists>k ref err. referencedPackages (binder_field p) k = Some ref
     \<and> snapshot_or_definition ref = Inl err
     \<and> (\<forall>a\<in>dom (referencedPackages (binder_field p)). a < k \<longrightarrow>
           \<not> isl (snapshot_or_definition (the (referencedPackages (binder_field p) a))))
     \<and> fst (PackageSnapshots ks p) =
           Inl (WrapError
             (''defining package '' @ [CHR 0x27] @ Name ref @ [CHR 0x27] @ '': '' @ Error err)
             err)
     \<and> (\<forall>vals. fst (PackageSnapshots ks p) \<noteq> Inr vals)"
proof -
  let ?m = "referencedPackages (binder_field p)"
  let ?bad = "\<lambda>k. isl (snapshot_or_definition (the (?m k)))"
  from assms(1) have set: "set (sort ks) = dom ?m" and so: "sorted (sort ks)"
    and di: "distinct (sort ks)"
    by (simp_all add: range_order_def)
  from assms(2) set have "\<exists>k\<in>set (sort ks). ?bad k" by simp
  from first_failure_split [OF so di this] obtain pre k post
    where split: "sort ks = pre @ k # post" "?bad k" "\<forall>a\<in>set pre. \<not> ?bad a"
      "\<forall>a\<in>set (sort ks). a < k \<longrightarrow> \<not> ?bad a"
    by blast
  from split(2) obtain err where err: "snapshot_or_definition (the (?m k)) = Inl err"
    by (cases "snapshot_or_definition (the (?m k))") auto
  have "k \<in> dom ?m" using split(1) set by (metis in_set_conv_decomp)
  then obtain ref where ref: "?m k = Some ref" by blast
  have run: "fst (PackageSnapshots ks p) =
      Inl (Errorf_w (''defining package '' @ [CHR 0x27] @ Name (the (?m k)) @ [CHR 0x27] @ '': '')
        err)"
    unfolding fst_PackageSnapshots split(1) by (rule PackageSnapshots_loop_fail [OF split(3) err])
  have "snapshot_or_definition ref = Inl err" using err ref by simp
  moreover have "\<forall>a\<in>dom ?m. a < k \<longrightarrow> \<not> ?bad a" using split(4) set by simp
  moreover have "fst (PackageSnapshots ks p) =
      Inl (WrapError
        (''defining package '' @ [CHR 0x27] @ Name ref @ [CHR 0x27] @ '': '' @ Error err) err)"
    using run ref by (simp add: Errorf_w_def)
  moreover from this have "\<forall>vals. fst (PackageSnapshots ks p) \<noteq> Inr vals" by simp
  ultimately show ?thesis using ref by blast
qed

theorem PackageSnapshots_failure_names_package_witness:
  "range_order (referencedPackages (binder_field snapshot_failing_program)) [''random'', ''aws'']
   \<and> (\<exists>k\<in>dom (referencedPackages (binder_field snapshot_failing_program)).
         isl (snapshot_or_definition (the (referencedPackages (binder_field snapshot_failing_program) k))))
   \<and> (\<exists>k ref err. referencedPackages (binder_field snapshot_failing_program) k = Some ref
     \<and> snapshot_or_definition ref = Inl err
     \<and> (\<forall>a\<in>dom (referencedPackages (binder_field snapshot_failing_program)). a < k \<longrightarrow>
           \<not> isl (snapshot_or_definition (the (referencedPackages (binder_field snapshot_failing_program) a))))
     \<and> fst (PackageSnapshots [''random'', ''aws''] snapshot_failing_program) =
           Inl (WrapError
             (''defining package '' @ [CHR 0x27] @ Name ref @ [CHR 0x27] @ '': '' @ Error err)
             err)
     \<and> (\<forall>vals. fst (PackageSnapshots [''random'', ''aws''] snapshot_failing_program)
           \<noteq> Inr vals))
   \<and> fst (PackageSnapshots [''random'', ''aws''] snapshot_failing_program) =
       Inl (WrapError
         (''defining package '' @ [CHR 0x27] @ ''random'' @ [CHR 0x27] @ '': malformed schema'')
         (ExternalError ''malformed schema''))"
proof -
  have h: "\<exists>k\<in>dom (referencedPackages (binder_field snapshot_failing_program)).
         isl (snapshot_or_definition (the (referencedPackages (binder_field snapshot_failing_program) k)))"
    by (simp add: snapshot_failing_program_def snapshot_or_definition_def)
  have v: "fst (PackageSnapshots [''random'', ''aws''] snapshot_failing_program) =
       Inl (WrapError
         (''defining package '' @ [CHR 0x27] @ ''random'' @ [CHR 0x27] @ '': malformed schema'')
         (ExternalError ''malformed schema''))"
    by (simp add: snapshot_failing_program_def PackageSnapshots_def snapshot_or_definition_def
        Errorf_w_def)
  from PackageSnapshots_failure_names_package [OF snapshot_failing_program_range_order h]
    snapshot_failing_program_range_order h v
  show ?thesis by blast
qed


subsection \<open>Full references\<close>

text \<open>
  Claim C6. When \<open>PackageSnapshots\<close> and \<open>Packages\<close> both return a list for a program, the
  lists have one entry for each referenced package, in the same order, and at every
  position whose reference is not a partial package the two entries are equal.
\<close>

theorem full_reference_snapshot_is_definition:
  assumes "range_order (referencedPackages (binder_field p)) ks"
    and "range_order (referencedPackages (binder_field p)) ks'"
    and "fst (PackageSnapshots ks p) = Inr vals"
    and "fst (Packages ks' p) = Returns defs"
  shows "length vals = length (fst (PackageReferences ks p))
     \<and> length defs = length (fst (PackageReferences ks p))
     \<and> (\<forall>i<length (fst (PackageReferences ks p)).
           \<not> is_PartialPackage (fst (PackageReferences ks p) ! i) \<longrightarrow> vals ! i = defs ! i)"
proof -
  let ?m = "referencedPackages (binder_field p)"
  let ?refs = "fst (PackageReferences ks p)"
  have same: "sort ks' = sort ks" using assms(1,2) by (simp add: sort_range_order)
  have refs: "?refs = map (\<lambda>k. the (?m k)) (sort ks)" by (rule fst_PackageReferences)
  have v: "map Inr vals = map snapshot_or_definition ?refs"
    using PackageSnapshots_Inr [OF assms(3)] by (simp add: refs comp_def)
  have d: "map Inr defs = map Definition ?refs"
    using Packages_Returns [OF assms(4)] by (simp add: refs same comp_def)
  from v have lv: "length vals = length ?refs" by (metis length_map)
  from d have ld: "length defs = length ?refs" by (metis length_map)
  have "vals ! i = defs ! i" if i: "i < length ?refs" and full: "\<not> is_PartialPackage (?refs ! i)"
    for i
  proof -
    from v i lv have "Inr (vals ! i) = snapshot_or_definition (?refs ! i)"
      by (metis nth_map)
    also from full have "\<dots> = Definition (?refs ! i)"
      by (simp add: snapshot_or_definition_def)
    also from d i ld have "\<dots> = Inr (defs ! i)"
      by (metis nth_map)
    finally show ?thesis by simp
  qed
  with lv ld show ?thesis by blast
qed

theorem full_reference_snapshot_is_definition_witness:
  "range_order (referencedPackages (binder_field good_program)) [''random'', ''aws'']
   \<and> range_order (referencedPackages (binder_field good_program)) [''aws'', ''random'']
   \<and> fst (PackageSnapshots [''random'', ''aws''] good_program) = Inr [Some 10, Some 12]
   \<and> fst (Packages [''aws'', ''random''] good_program) = Returns [Some 10, Some 11]
   \<and> length [Some 10, Some (12::nat)] =
       length (fst (PackageReferences [''random'', ''aws''] good_program))
   \<and> length [Some 10, Some (11::nat)] =
       length (fst (PackageReferences [''random'', ''aws''] good_program))
   \<and> 0 < length (fst (PackageReferences [''random'', ''aws''] good_program))
   \<and> \<not> is_PartialPackage (fst (PackageReferences [''random'', ''aws''] good_program) ! 0)
   \<and> [Some 10, Some (12::nat)] ! 0 = [Some 10, Some 11] ! 0"
proof -
  let ?refs = "fst (PackageReferences [''random'', ''aws''] good_program)"
  note main = full_reference_snapshot_is_definition [OF good_program_range_order
      good_program_results(3) good_program_results(2)]
  have pos: "0 < length ?refs" and full: "\<not> is_PartialPackage (?refs ! 0)"
    by (simp_all add: good_program_results(1))
  from main pos full have "[Some 10, Some (12::nat)] ! 0 = [Some 10, Some 11] ! 0"
    by blast
  with main pos full good_program_range_order good_program_results(2,3)
  show ?thesis by blast
qed


section \<open>Properties of the queries over a store\<close>

subsection \<open>The queries only read\<close>

lemma snd_PackageReferences_s: "snd (PackageReferences_s ks s) = s"
  by (simp add: PackageReferences_s_def Let_def)

lemma Packages_loop_s_program:
  assumes "calls_keep_program c"
  shows "program (snd (Packages_loop_s c i refs defs s)) = program s"
proof (induction refs arbitrary: i defs s)
  case Nil
  show ?case by simp
next
  case (Cons ref refs)
  obtain res s' where call: "Definition_s c ref s = (res, s')"
    by (cases "Definition_s c ref s")
  from assms have "program (snd (Definition_s c ref s)) = program s"
    by (simp add: calls_keep_program_def)
  with call have keep: "program s' = program s" by simp
  show ?case
  proof (cases res)
    case (Inl err)
    with call keep show ?thesis by simp
  next
    case (Inr d)
    with call have "Packages_loop_s c i (ref # refs) defs s =
        Packages_loop_s c (Suc i) refs (defs[i := d]) s'"
      by simp
    with Cons.IH [of "Suc i" "defs[i := d]" s'] keep show ?thesis by simp
  qed
qed

lemma PackageSnapshots_loop_s_program:
  assumes "calls_keep_program c"
  shows "program (snd (PackageSnapshots_loop_s c vals keys s)) = program s"
proof (induction keys arbitrary: vals s)
  case Nil
  show ?case by simp
next
  case (Cons k keys)
  let ?ref = "the (referencedPackages_s (binder_s (program s)) k)"
  let ?call = "if is_PartialPackage_s c ?ref then Snapshot_s c ?ref s else Definition_s c ?ref s"
  obtain res s' where call: "?call = (res, s')"
    by (cases ?call)
  from assms have "program (snd ?call) = program s"
    by (simp add: calls_keep_program_def)
  with call have keep: "program s' = program s" by simp
  show ?case
  proof (cases res)
    case (Inl err)
    obtain name s'' where nm: "Name_s c ?ref s' = (name, s'')"
      by (cases "Name_s c ?ref s'")
    from assms have "program (snd (Name_s c ?ref s')) = program s'"
      by (simp add: calls_keep_program_def)
    with nm keep have "program s'' = program s" by simp
    with Inl call nm show ?thesis by (simp add: Let_def)
  next
    case (Inr pkg)
    with call have "PackageSnapshots_loop_s c vals (k # keys) s =
        PackageSnapshots_loop_s c (vals @ [pkg]) keys s'"
      by (simp add: Let_def)
    with Cons.IH [of "vals @ [pkg]" s'] keep show ?thesis by simp
  qed
qed

lemma caching_calls_keep_program: "calls_keep_program caching_calls"
  by (simp add: calls_keep_program_def caching_calls_def)

lemma value_calls_keep_program: "calls_keep_program value_calls"
  by (simp add: calls_keep_program_def value_calls_def)

text \<open>Without effects the two embeddings give the same results.\<close>

lemma append_values_s_eq: "append_values_s m vals keys = append_values m vals keys"
  by (induction keys arbitrary: vals) simp_all

lemma Packages_loop_s_value_calls:
  "Packages_loop_s value_calls i refs defs s = (Packages_loop i refs defs, s)"
  by (induction refs arbitrary: i defs) (simp_all add: value_calls_def split: sum.splits)

lemma PackageSnapshots_loop_s_value_calls:
  "PackageSnapshots_loop_s value_calls vals keys (store_of p) =
     (PackageSnapshots_loop (referencedPackages (binder_field p)) vals keys, store_of p)"
  by (induction keys arbitrary: vals)
    (simp_all add: value_calls_def store_of_def snapshot_or_definition_def Let_def
      split: sum.splits)

lemma queries_without_effects:
  "fst (PackageReferences_s ks (store_of p)) = fst (PackageReferences ks p)"
  "fst (Packages_s value_calls ks (store_of p)) = fst (Packages ks p)"
  "fst (PackageSnapshots_s value_calls ks (store_of p)) = fst (PackageSnapshots ks p)"
proof -
  show refs: "fst (PackageReferences_s ks (store_of p)) = fst (PackageReferences ks p)"
    by (simp add: PackageReferences_s_def PackageReferences_def Let_def append_values_s_eq
        store_of_def)
  have "Packages_s value_calls ks (store_of p) =
      Packages_loop_s value_calls 0 (fst (PackageReferences_s ks (store_of p)))
        (replicate (length (fst (PackageReferences_s ks (store_of p)))) None) (store_of p)"
    by (simp add: Packages_s_def PackageReferences_s_def Let_def)
  then show "fst (Packages_s value_calls ks (store_of p)) = fst (Packages ks p)"
    by (simp add: Packages_loop_s_value_calls refs fst_Packages)
  show "fst (PackageSnapshots_s value_calls ks (store_of p)) = fst (PackageSnapshots ks p)"
    by (simp add: PackageSnapshots_s_def PackageSnapshots_def Let_def
        PackageSnapshots_loop_s_value_calls)
qed

text \<open>
  Claim C9. Whatever the calls into package \<open>schema\<close> do to the objects of that package,
  each of the three queries leaves the program as it was: the table of referenced
  packages, with its names and the pointer stored under each name, and the list of nodes
  are the same after the call as before it. What the pointers refer to may have changed.
\<close>

theorem queries_keep_program:
  assumes "calls_keep_program c"
  shows "program (snd (PackageReferences_s ks s)) = program s
     \<and> program (snd (Packages_s c ks s)) = program s
     \<and> program (snd (PackageSnapshots_s c ks s)) = program s
     \<and> referencedPackages_s (binder_s (program (snd (PackageReferences_s ks s)))) =
         referencedPackages_s (binder_s (program s))
     \<and> referencedPackages_s (binder_s (program (snd (Packages_s c ks s)))) =
         referencedPackages_s (binder_s (program s))
     \<and> referencedPackages_s (binder_s (program (snd (PackageSnapshots_s c ks s)))) =
         referencedPackages_s (binder_s (program s))
     \<and> Nodes_s (program (snd (PackageReferences_s ks s))) = Nodes_s (program s)
     \<and> Nodes_s (program (snd (Packages_s c ks s))) = Nodes_s (program s)
     \<and> Nodes_s (program (snd (PackageSnapshots_s c ks s))) = Nodes_s (program s)"
proof -
  have refs: "program (snd (PackageReferences_s ks s)) = program s"
    by (simp add: snd_PackageReferences_s)
  have "Packages_s c ks s =
      Packages_loop_s c 0 (fst (PackageReferences_s ks s))
        (replicate (length (fst (PackageReferences_s ks s))) None) s"
    by (simp add: Packages_s_def PackageReferences_s_def Let_def)
  then have pkgs: "program (snd (Packages_s c ks s)) = program s"
    by (simp only: Packages_loop_s_program [OF assms])
  have snaps: "program (snd (PackageSnapshots_s c ks s)) = program s"
    by (simp add: PackageSnapshots_s_def Let_def PackageSnapshots_loop_s_program [OF assms])
  from refs pkgs snaps show ?thesis by simp
qed

theorem queries_keep_program_witness:
  "calls_keep_program caching_calls
   \<and> program (snd (PackageReferences_s [''random'', ''aws''] example_store)) =
       program example_store
   \<and> program (snd (Packages_s caching_calls [''random'', ''aws''] example_store)) =
       program example_store
   \<and> program (snd (PackageSnapshots_s caching_calls [''random'', ''aws''] example_store)) =
       program example_store
   \<and> fst (Packages_s caching_calls [''random'', ''aws''] example_store) =
       Returns [Some 10, Some 11]
   \<and> schema example_store = {}
   \<and> schema (snd (Packages_s caching_calls [''random'', ''aws''] example_store)) =
       {''random'', ''aws''}
   \<and> fst (PackageSnapshots_s caching_calls [''random'', ''aws''] example_store) =
       Inr [Some 10, Some 12]
   \<and> fst (PackageSnapshots_s caching_calls [''random'', ''aws'']
         (snd (Packages_s caching_calls [''random'', ''aws''] example_store))) =
       Inr [Some 10, Some 11]"
proof -
  note main = queries_keep_program [OF caching_calls_keep_program,
      of "[''random'', ''aws'']" example_store]
  have run: "Packages_s caching_calls [''random'', ''aws''] example_store =
      (Returns [Some 10, Some 11], example_store\<lparr>schema := {''random'', ''aws''}\<rparr>)"
    by (simp add: Packages_s_def PackageReferences_s_def caching_calls_def example_store_def)
  have snap0: "fst (PackageSnapshots_s caching_calls [''random'', ''aws''] example_store) =
      Inr [Some 10, Some 12]"
    by (simp add: PackageSnapshots_s_def caching_calls_def example_store_def Let_def)
  have snap1: "fst (PackageSnapshots_s caching_calls [''random'', ''aws'']
      (example_store\<lparr>schema := {''random'', ''aws''}\<rparr>)) = Inr [Some 10, Some 11]"
    by (simp add: PackageSnapshots_s_def caching_calls_def example_store_def Let_def)
  have "schema example_store = {}" by (simp add: example_store_def)
  with main caching_calls_keep_program run snap0 snap1 show ?thesis by simp
qed

end
